theory Spec2Isabelle
  imports Complex_Main
begin

section \<open>Python values shared by the three backends\<close>

text \<open>
  Exceptions are values. Every exception the modelled code can meet derives from
  Python's \<open>Exception\<close>, so one datatype with the classes that occur and their
  message is enough; \<open>str\<close> is Python's \<open>str(e)\<close>.
\<close>

datatype error =
    TypeError string
  | ValueError string
  | RuntimeError string
  | SandboxError string

fun str :: "error \<Rightarrow> string" where
  "str (TypeError m) = m"
| "str (ValueError m) = m"
| "str (RuntimeError m) = m"
| "str (SandboxError m) = m"

text \<open>
  A Python \<open>dict\<close> keeps its keys in insertion order: assigning to a key that is
  present replaces the value where it stands, assigning to a new key appends it, and
  \<open>del\<close> removes the entry. \<open>next(iter(d))\<close> is the first key of that order.
\<close>

primrec dict_set :: "'k \<Rightarrow> 'v \<Rightarrow> ('k \<times> 'v) list \<Rightarrow> ('k \<times> 'v) list" where
  "dict_set k v [] = [(k, v)]"
| "dict_set k v (p # ps) = (if fst p = k then (k, v) # ps else p # dict_set k v ps)"

primrec dict_del :: "'k \<Rightarrow> ('k \<times> 'v) list \<Rightarrow> ('k \<times> 'v) list" where
  "dict_del k [] = []"
| "dict_del k (p # ps) = (if fst p = k then dict_del k ps else p # dict_del k ps)"

definition dict_keys :: "('k \<times> 'v) list \<Rightarrow> 'k list" where
  "dict_keys d = map fst d"

section \<open>q3: the sandbox collaborator\<close>

text \<open>
  The e2b library is outside the repository. Its behaviour is data of the model: what
  the remote process prints, whether a call raises. One item of \<open>process.output\<close> is a
  line, the end of the stream, or an exception raised while waiting for the next item;
  the stream is indexed by position and need not end.
\<close>

datatype out_event = Line string | EOF | Raise error

record process =
  process_output :: "nat \<Rightarrow> out_event"
  exit_code :: int

record AsyncSandbox =
  sandbox_id :: nat
  process_start :: "string \<Rightarrow> error + process"
  close_outcome :: "error option"

text \<open>
  \<open>AsyncSandbox.create\<close>: the outcome of the k-th call is scripted by
  \<open>create_outcome\<close>, and \<open>create_calls\<close> counts the calls made so far.
\<close>

record e2b =
  create_outcome :: "nat \<Rightarrow> error + AsyncSandbox"
  create_calls :: nat

definition AsyncSandbox_create :: "e2b \<Rightarrow> (error + AsyncSandbox) \<times> e2b" where
  "AsyncSandbox_create w =
     (create_outcome w (create_calls w), w\<lparr>create_calls := Suc (create_calls w)\<rparr>)"

section \<open>q3: E2BService (backend/services/e2b_service.py)\<close>

record E2BService =
  api_key :: "string option"
  project_id :: "string option"
  active_sessions :: "(string \<times> AsyncSandbox) list"
  max_sessions :: nat

definition E2BService_init :: "string option \<Rightarrow> string option \<Rightarrow> E2BService" where
  "E2BService_init key project =
     \<lparr>api_key = key, project_id = project, active_sessions = [], max_sessions = 10\<rparr>"

text \<open>\<open>bool(self.api_key)\<close>: \<open>None\<close> and the empty string are false.\<close>

definition is_available :: "E2BService \<Rightarrow> bool" where
  "is_available svc = (case api_key svc of None \<Rightarrow> False | Some k \<Rightarrow> k \<noteq> [])"

text \<open>
  \<open>_close_session\<close>: the \<open>del\<close> stands after the \<open>close()\<close> inside the same
  \<open>try\<close>, so a \<open>close()\<close> that raises skips it; the exception is logged and dropped.
\<close>

definition close_session :: "E2BService \<Rightarrow> string \<Rightarrow> E2BService" where
  "close_session svc session_id =
     (case map_of (active_sessions svc) session_id of
        None \<Rightarrow> svc
      | Some session \<Rightarrow>
          (case close_outcome session of
             Some e \<Rightarrow> svc
           | None \<Rightarrow> svc\<lparr>active_sessions := dict_del session_id (active_sessions svc)\<rparr>))"

text \<open>
  \<open>_create_session\<close>. At capacity the first key of the dictionary is closed, then the
  sandbox is created and stored. \<open>next(iter(...))\<close> on an empty dictionary raises
  StopIteration, which a coroutine turns into RuntimeError; that needs
  \<open>max_sessions = 0\<close>. An exception of \<open>AsyncSandbox.create\<close> propagates after the
  eviction has taken place.
\<close>

definition create_session ::
  "E2BService \<Rightarrow> string \<Rightarrow> e2b \<Rightarrow> (error + AsyncSandbox) \<times> E2BService \<times> e2b" where
  "create_session svc session_id w =
     (let evicted =
        (if length (active_sessions svc) \<ge> max_sessions svc then
           (case active_sessions svc of
              [] \<Rightarrow> Inl (RuntimeError ''coroutine raised StopIteration'')
            | (oldest_session_id, _) # _ \<Rightarrow> Inr (close_session svc oldest_session_id))
         else Inr svc)
      in case evicted of
           Inl e \<Rightarrow> (Inl e, svc, w)
         | Inr svc1 \<Rightarrow>
             (case AsyncSandbox_create w of
                (Inl e, w1) \<Rightarrow> (Inl e, svc1, w1)
              | (Inr session, w1) \<Rightarrow>
                  (Inr session,
                   svc1\<lparr>active_sessions := dict_set session_id session (active_sessions svc1)\<rparr>,
                   w1)))"

text \<open>
  The pool as the concurrent executions drive it. Each running generator of
  \<open>execute_python_code\<close> / \<open>execute_javascript_code\<close> calls \<open>_create_session\<close> with
  its execution id when it starts (line 87 / 123) and \<open>_close_session\<close> with the same
  id in its \<open>finally\<close> (line 112 / 148); between the two it is suspended in the loop
  over the remote output, and other executions run. The service keeps no idle/busy
  flag and no last-used time, so \<open>executing\<close> records, beside the service, the
  executions that have acquired their session and not yet released it.
\<close>

datatype pool_op = Acquire string | Release string

record pool_state =
  service :: E2BService
  world :: e2b
  executing :: "string list"

fun pool_step :: "pool_state \<Rightarrow> pool_op \<Rightarrow> pool_state" where
  "pool_step s (Acquire execution_id) =
     (case create_session (service s) execution_id (world s) of
        (Inl e, svc1, w1) \<Rightarrow> s\<lparr>service := svc1, world := w1\<rparr>
      | (Inr session, svc1, w1) \<Rightarrow>
          s\<lparr>service := svc1, world := w1, executing := executing s @ [execution_id]\<rparr>)"
| "pool_step s (Release execution_id) =
     s\<lparr>service := close_session (service s) execution_id,
       executing := removeAll execution_id (executing s)\<rparr>"

definition run_pool :: "pool_state \<Rightarrow> pool_op list \<Rightarrow> pool_state" where
  "run_pool s ops = foldl pool_step s ops"

text \<open>
  A pool state whose sandboxes all close without raising: those in the pool and every
  one the collaborator will create.
\<close>

definition closes_cleanly :: "pool_state \<Rightarrow> bool" where
  "closes_cleanly s =
     (list_all (\<lambda>p. close_outcome (snd p) = None) (active_sessions (service s))
      \<and> (\<forall>k sb. create_outcome (world s) k = Inr sb \<longrightarrow> close_outcome sb = None))"

subsection \<open>The two streaming generators\<close>

definition newline :: string where
  "newline = [CHR 0x0A]"

definition quote :: string where
  "quote = [CHR 0x27]"

text \<open>\<open>s.replace(old, new)\<close> for a one-character \<open>old\<close>.\<close>

definition replace_char :: "char \<Rightarrow> string \<Rightarrow> string \<Rightarrow> string" where
  "replace_char old new s = concat (map (\<lambda>c. if c = old then new else [c]) s)"

definition wrap_python_code :: "string \<Rightarrow> string" where
  "wrap_python_code code =
     (let escaped_code = replace_char (CHR 0x27) [CHR 0x5C, CHR 0x27] code;
          wrapped = newline @ ''import sys'' @ newline @ ''import traceback'' @ newline
            @ newline @ ''try:'' @ newline @ ''    '' @ escaped_code @ newline
            @ ''except Exception as e:'' @ newline
            @ ''    print(f'' @ [CHR 0x22] @ ''Error: {e}'' @ [CHR 0x22]
            @ '', file=sys.stderr)'' @ newline
            @ ''    traceback.print_exc(file=sys.stderr)'' @ newline
      in replace_char (CHR 0x0A) ''; '' wrapped)"

definition wrap_javascript_code :: "string \<Rightarrow> string" where
  "wrap_javascript_code code =
     (let escaped_code = replace_char (CHR 0x27) [CHR 0x5C, CHR 0x27] code;
          wrapped = newline @ ''try {'' @ newline @ ''    '' @ escaped_code @ newline
            @ ''} catch (error) {'' @ newline
            @ ''    console.error('' @ quote @ ''Error:'' @ quote @ '', error.message);''
            @ newline @ ''    console.error(error.stack);'' @ newline @ ''}'' @ newline
      in replace_char (CHR 0x0A) '' '' wrapped)"

text \<open>\<open>str\<close> of an integer, for the f-string that reports the exit code.\<close>

fun show_nat :: "nat \<Rightarrow> string" where
  "show_nat n =
     (if n < 10 then [''0123456789'' ! n]
      else show_nat (n div 10) @ [''0123456789'' ! (n mod 10)])"

declare show_nat.simps [simp del]

definition show_int :: "int \<Rightarrow> string" where
  "show_int i = (if i < 0 then CHR ''-'' # show_nat (nat (- i)) else show_nat (nat i))"

definition error_chunk :: "error \<Rightarrow> string" where
  "error_chunk e = ''Execution error: '' @ str e @ newline"

definition exit_chunk :: "int \<Rightarrow> string" where
  "exit_chunk c = ''Execution completed with exit code: '' @ show_int c @ newline"

text \<open>
  \<open>async for output in process.output\<close>: a line that is not empty is yielded with a
  newline appended. The loop ends at the end of the stream or when waiting for the
  next item raises; nothing else ends it. The fuel bounds the number of items read:
  \<open>None\<close> means the loop is still running after that many items.
\<close>

fun stream_output ::
  "nat \<Rightarrow> (nat \<Rightarrow> out_event) \<Rightarrow> nat \<Rightarrow> (string list \<times> error option) option" where
  "stream_output 0 out i = None"
| "stream_output (Suc fuel) out i =
     (case out i of
        EOF \<Rightarrow> Some ([], None)
      | Raise e \<Rightarrow> Some ([], Some e)
      | Line l \<Rightarrow>
          (case stream_output fuel out (Suc i) of
             None \<Rightarrow> None
           | Some (chunks, r) \<Rightarrow> Some ((if l \<noteq> [] then [l @ newline] else []) @ chunks, r)))"

text \<open>
  The body both generators share after the availability check (lines 84-112 and
  120-148), run to its end: the chunks yielded in order, the service and the
  collaborator afterwards. An exception anywhere in the \<open>try\<close> becomes one more chunk;
  the \<open>finally\<close> closes the session only when one was created.
\<close>

definition run_in_sandbox ::
  "nat \<Rightarrow> E2BService \<Rightarrow> string \<Rightarrow> string \<Rightarrow> e2b \<Rightarrow> (string list \<times> E2BService \<times> e2b) option" where
  "run_in_sandbox fuel svc cmd execution_id w =
     (case create_session svc execution_id w of
        (Inl e, svc1, w1) \<Rightarrow> Some ([error_chunk e], svc1, w1)
      | (Inr session, svc1, w1) \<Rightarrow>
          (case process_start session cmd of
             Inl e \<Rightarrow> Some ([error_chunk e], close_session svc1 execution_id, w1)
           | Inr proc \<Rightarrow>
               (case stream_output fuel (process_output proc) 0 of
                  None \<Rightarrow> None
                | Some (chunks, Some e) \<Rightarrow>
                    Some (chunks @ [error_chunk e], close_session svc1 execution_id, w1)
                | Some (chunks, None) \<Rightarrow>
                    Some (chunks @ (if exit_code proc \<noteq> 0 then [exit_chunk (exit_code proc)] else []),
                          close_session svc1 execution_id, w1))))"

definition not_available_chunk :: string where
  "not_available_chunk = ''E2B service not available. Please configure E2B API key.''"

definition execute_python_code ::
  "nat \<Rightarrow> E2BService \<Rightarrow> string \<Rightarrow> string \<Rightarrow> e2b \<Rightarrow> (string list \<times> E2BService \<times> e2b) option" where
  "execute_python_code fuel svc code execution_id w =
     (if \<not> is_available svc then Some ([not_available_chunk], svc, w)
      else run_in_sandbox fuel svc
             (''python3 -c '' @ quote @ wrap_python_code code @ quote) execution_id w)"

definition execute_javascript_code ::
  "nat \<Rightarrow> E2BService \<Rightarrow> string \<Rightarrow> string \<Rightarrow> e2b \<Rightarrow> (string list \<times> E2BService \<times> e2b) option" where
  "execute_javascript_code fuel svc code execution_id w =
     (if \<not> is_available svc then Some ([not_available_chunk], svc, w)
      else run_in_sandbox fuel svc
             (''node -e '' @ quote @ wrap_javascript_code code @ quote) execution_id w)"

section \<open>q3: the WebSocket dispatcher (backend/main.py)\<close>

text \<open>
  The JSON objects sent to the client, by their \<open>type\<close> field. The first argument is
  the execution id, the second the \<open>message\<close>, \<open>data\<close> or \<open>error\<close> field.
\<close>

datatype event =
    execution_start string string
  | execution_output string string
  | execution_complete string string
  | execution_error "string option" string

fun terminal :: "event \<Rightarrow> bool" where
  "terminal (execution_complete _ _) = True"
| "terminal (execution_error _ _) = True"
| "terminal _ = False"

fun event_id :: "event \<Rightarrow> string option" where
  "event_id (execution_start i _) = Some i"
| "event_id (execution_output i _) = Some i"
| "event_id (execution_complete i _) = Some i"
| "event_id (execution_error i _) = i"

text \<open>
  The client's channel: what has been delivered so far, and how many more sends the
  peer takes before it is gone (\<open>None\<close>: it stays). \<open>send_text\<close> on a channel whose
  peer is gone raises.
\<close>

record WebSocket =
  delivered :: "event list"
  accepts :: "nat option"

definition send_text :: "WebSocket \<Rightarrow> event \<Rightarrow> error + WebSocket" where
  "send_text websocket ev =
     (case accepts websocket of
        None \<Rightarrow> Inr (websocket\<lparr>delivered := delivered websocket @ [ev]\<rparr>)
      | Some 0 \<Rightarrow> Inl (RuntimeError ''WebSocket is not connected'')
      | Some (Suc n) \<Rightarrow>
          Inr (websocket\<lparr>delivered := delivered websocket @ [ev], accepts := Some n\<rparr>))"

definition can_send :: "WebSocket \<Rightarrow> nat \<Rightarrow> bool" where
  "can_send websocket n = (case accepts websocket of None \<Rightarrow> True | Some k \<Rightarrow> n \<le> k)"

text \<open>\<open>message.get(key, default)\<close> on the decoded JSON object.\<close>

definition message_get :: "(string \<times> string) list \<Rightarrow> string \<Rightarrow> string \<Rightarrow> string" where
  "message_get message key dflt =
     (case map_of message key of None \<Rightarrow> dflt | Some v \<Rightarrow> v)"

text \<open>
  \<open>result = await e2b_service.execute_python_code(code, execution_id)\<close> (lines 113 and
  115). The callee's body contains \<open>yield\<close>, so it is an async generator function: the
  call returns an async generator object and runs none of the body. That object has
  no \<open>__await__\<close>, and Python's \<open>await\<close> on it raises
  \<open>TypeError: object async_generator can't be used in 'await' expression\<close>. The
  exception is raised inside the handler's \<open>try\<close>.
\<close>

definition await_async_generator :: "'g \<Rightarrow> error + 'g" where
  "await_async_generator g =
     Inl (TypeError (''object async_generator can'' @ quote @ ''t be used in ''
                     @ quote @ ''await'' @ quote @ '' expression''))"

text \<open>The loop of lines 120-125: one \<open>execution_output\<close> per chunk, in order.\<close>

fun relay :: "WebSocket \<Rightarrow> string \<Rightarrow> string list \<Rightarrow> error \<times> WebSocket + WebSocket" where
  "relay websocket execution_id [] = Inr websocket"
| "relay websocket execution_id (chunk # chunks) =
     (case send_text websocket (execution_output execution_id chunk) of
        Inl e \<Rightarrow> Inl (e, websocket)
      | Inr websocket1 \<Rightarrow> relay websocket1 execution_id chunks)"

text \<open>
  \<open>handle_code_execution\<close>. The \<open>uuid\<close> argument is the value of \<open>str(uuid4())\<close>.
  \<open>try_body\<close> is the \<open>try\<close> block: \<open>Inl\<close> carries the exception raised in it and the
  state at that point. The \<open>except\<close> clause sends one \<open>execution_error\<close>; an exception
  of that send leaves the handler (the first component of the result). Lines 119-132
  run only where the \<open>await\<close> returns a value; they are written with the generator
  run to its end before its chunks are relayed.
\<close>

definition try_body ::
  "nat \<Rightarrow> WebSocket \<Rightarrow> (string \<times> string) list \<Rightarrow> string \<Rightarrow> E2BService \<Rightarrow> e2b \<Rightarrow>
   (error \<times> WebSocket \<times> E2BService \<times> e2b + WebSocket \<times> E2BService \<times> e2b) option" where
  "try_body fuel websocket message uuid svc w =
     (let code = message_get message ''code'' [];
          language = message_get message ''language'' ''python'';
          execution_id = uuid
      in case send_text websocket (execution_start execution_id ''Starting code execution...'') of
           Inl e \<Rightarrow> Some (Inl (e, websocket, svc, w))
         | Inr websocket1 \<Rightarrow>
             (case (if language = ''python'' then
                      await_async_generator (\<lambda>f. execute_python_code f svc code execution_id w)
                    else if language = ''javascript'' then
                      await_async_generator (\<lambda>f. execute_javascript_code f svc code execution_id w)
                    else Inl (ValueError (''Unsupported language: '' @ language))) of
                Inl e \<Rightarrow> Some (Inl (e, websocket1, svc, w))
              | Inr result \<Rightarrow>
                  (case result fuel of
                     None \<Rightarrow> None
                   | Some (chunks, svc1, w1) \<Rightarrow>
                       (case relay websocket1 execution_id chunks of
                          Inl (e, websocket2) \<Rightarrow> Some (Inl (e, websocket2, svc1, w1))
                        | Inr websocket2 \<Rightarrow>
                            (case send_text websocket2
                                    (execution_complete execution_id ''Code execution completed'') of
                               Inl e \<Rightarrow> Some (Inl (e, websocket2, svc1, w1))
                             | Inr websocket3 \<Rightarrow> Some (Inr (websocket3, svc1, w1)))))))"

definition handle_code_execution ::
  "nat \<Rightarrow> WebSocket \<Rightarrow> string \<Rightarrow> (string \<times> string) list \<Rightarrow> string \<Rightarrow> E2BService \<Rightarrow> e2b \<Rightarrow>
   (error option \<times> WebSocket \<times> E2BService \<times> e2b) option" where
  "handle_code_execution fuel websocket client_id message uuid svc w =
     (case try_body fuel websocket message uuid svc w of
        None \<Rightarrow> None
      | Some (Inr (websocket1, svc1, w1)) \<Rightarrow> Some (None, websocket1, svc1, w1)
      | Some (Inl (e, websocket1, svc1, w1)) \<Rightarrow>
          (case send_text websocket1 (execution_error (Some uuid) (str e)) of
             Inl e2 \<Rightarrow> Some (Some e2, websocket1, svc1, w1)
           | Inr websocket2 \<Rightarrow> Some (None, websocket2, svc1, w1)))"

text \<open>
  The events of one execution end well when the last of them is terminal
  (\<open>execution_complete\<close> or \<open>execution_error\<close>) and it is the only terminal one, so
  that every other event stands strictly before it.
\<close>

definition well_terminated :: "event list \<Rightarrow> bool" where
  "well_terminated evs =
     (evs \<noteq> [] \<and> terminal (last evs) \<and> length (filter terminal evs) = 1)"

section \<open>q3: WebSocketManager (backend/api/websocket_manager.py)\<close>

text \<open>
  The manager stores references to socket objects that other code holds too, so the
  sockets live in a store indexed by reference and the registry maps a client id to a
  reference. A socket is waiting for its handshake, open, or closed with a code and a
  reason. \<open>accept\<close> is the handshake: it raises on a socket that is not waiting for
  it; \<open>close\<close> raises on a socket that is closed already.
\<close>

datatype channel_state = Connecting | Opened | Closed nat string

definition ws_accept :: "(nat \<Rightarrow> channel_state) \<Rightarrow> nat \<Rightarrow> error + (nat \<Rightarrow> channel_state)" where
  "ws_accept store websocket =
     (case store websocket of
        Connecting \<Rightarrow> Inr (store(websocket := Opened))
      | Opened \<Rightarrow> Inl (RuntimeError ''websocket.accept after the handshake'')
      | Closed c r \<Rightarrow> Inl (RuntimeError ''websocket.accept after close''))"

definition ws_close ::
  "(nat \<Rightarrow> channel_state) \<Rightarrow> nat \<Rightarrow> nat \<Rightarrow> string \<Rightarrow> error + (nat \<Rightarrow> channel_state)" where
  "ws_close store websocket code reason =
     (case store websocket of
        Closed c r \<Rightarrow> Inl (RuntimeError ''websocket.close after close'')
      | _ \<Rightarrow> Inr (store(websocket := Closed code reason)))"

record WebSocketManager =
  active_connections :: "(string \<times> nat) list"
  connection_tasks :: "(string \<times> nat) list"
  max_connections :: nat

definition WebSocketManager_init :: WebSocketManager where
  "WebSocketManager_init =
     \<lparr>active_connections = [], connection_tasks = [], max_connections = 100\<rparr>"

text \<open>
  \<open>connect\<close>: the result is the exception that leaves the method (if any), the
  manager and the store afterwards.
\<close>

definition connect ::
  "WebSocketManager \<Rightarrow> (nat \<Rightarrow> channel_state) \<Rightarrow> nat \<Rightarrow> string \<Rightarrow>
   error option \<times> WebSocketManager \<times> (nat \<Rightarrow> channel_state)" where
  "connect mgr store websocket client_id =
     (if length (active_connections mgr) \<ge> max_connections mgr then
        (case ws_close store websocket 1008 ''Maximum connections reached'' of
           Inl e \<Rightarrow> (Some e, mgr, store)
         | Inr store1 \<Rightarrow> (None, mgr, store1))
      else
        (case ws_accept store websocket of
           Inl e \<Rightarrow> (Some e, mgr, store)
         | Inr store1 \<Rightarrow>
             (None,
              mgr\<lparr>active_connections := dict_set client_id websocket (active_connections mgr)\<rparr>,
              store1)))"

section \<open>q2: the rate limiters (app/utils/rate_limiter.py)\<close>

text \<open>
  \<open>RateLimiter\<close>. \<open>requests\<close> is a \<open>defaultdict(list)\<close>: every identifier has a list,
  empty until something is recorded. The reading of \<open>time.time()\<close> is an argument;
  timestamps are real numbers (the rounding of the float subtraction is not modelled).
\<close>

record RateLimiter =
  max_requests :: int
  window_seconds :: int
  requests :: "string \<Rightarrow> real list"

definition RateLimiter_init :: "int \<Rightarrow> int \<Rightarrow> RateLimiter" where
  "RateLimiter_init max_req window =
     \<lparr>max_requests = max_req, window_seconds = window, requests = (\<lambda>identifier. [])\<rparr>"

definition is_allowed :: "RateLimiter \<Rightarrow> string \<Rightarrow> real \<Rightarrow> bool \<times> RateLimiter" where
  "is_allowed rl identifier now =
     (let window_start = now - of_int (window_seconds rl);
          kept = filter (\<lambda>req_time. req_time > window_start) (requests rl identifier);
          rl1 = rl\<lparr>requests := (requests rl)(identifier := kept)\<rparr>
      in if int (length kept) < max_requests rl then
           (True, rl1\<lparr>requests := (requests rl1)(identifier := kept @ [now])\<rparr>)
         else (False, rl1))"

text \<open>
  A run of checks, each with its identifier and clock reading: the outcomes in order
  and the limiter afterwards.
\<close>

fun checks :: "RateLimiter \<Rightarrow> (string \<times> real) list \<Rightarrow> bool list \<times> RateLimiter" where
  "checks rl [] = ([], rl)"
| "checks rl ((identifier, now) # rest) =
     (case is_allowed rl identifier now of
        (ok, rl1) \<Rightarrow> (case checks rl1 rest of (oks, rl2) \<Rightarrow> (ok # oks, rl2)))"

text \<open>The clock readings of the admitted requests of one client in such a run.\<close>

definition admitted :: "RateLimiter \<Rightarrow> (string \<times> real) list \<Rightarrow> string \<Rightarrow> real list" where
  "admitted rl calls identifier =
     map (\<lambda>(call, ok). snd call)
       (filter (\<lambda>(call, ok). ok \<and> fst call = identifier) (zip calls (fst (checks rl calls))))"







section \<open>Scenarios\<close>

text \<open>
  Concrete inputs on which the code is run below: a sandbox whose \<open>close()\<close>
  succeeds, one whose \<open>close()\<close> raises, and one whose process prints a line for ever;
  collaborators that create them; a fresh pool and ten executions starting on it; a
  channel whose peer stays; a registry with one client; a limiter with two recorded
  requests; a run of four checks.
\<close>

definition plain_sandbox :: "nat \<Rightarrow> AsyncSandbox" where
  "plain_sandbox k =
     \<lparr>sandbox_id = k,
      process_start = (\<lambda>cmd. Inr \<lparr>process_output = (\<lambda>i. if i = 0 then Line ''hello'' else EOF),
                                  exit_code = 0\<rparr>),
      close_outcome = None\<rparr>"

definition stuck_sandbox :: "nat \<Rightarrow> AsyncSandbox" where
  "stuck_sandbox k = (plain_sandbox k)\<lparr>close_outcome := Some (SandboxError ''close failed'')\<rparr>"

definition endless_sandbox :: "nat \<Rightarrow> AsyncSandbox" where
  "endless_sandbox k =
     (plain_sandbox k)\<lparr>process_start :=
        (\<lambda>cmd. Inr \<lparr>process_output = (\<lambda>i. Line ''tick''), exit_code = 0\<rparr>)\<rparr>"

definition reliable_e2b :: e2b where
  "reliable_e2b = \<lparr>create_outcome = (\<lambda>k. Inr (plain_sandbox k)), create_calls = 0\<rparr>"

definition first_close_fails_e2b :: e2b where
  "first_close_fails_e2b =
     \<lparr>create_outcome = (\<lambda>k. Inr (if k = 0 then stuck_sandbox k else plain_sandbox k)),
      create_calls = 0\<rparr>"

definition endless_e2b :: e2b where
  "endless_e2b = \<lparr>create_outcome = (\<lambda>k. Inr (endless_sandbox k)), create_calls = 0\<rparr>"

definition eleventh_create_fails_e2b :: e2b where
  "eleventh_create_fails_e2b =
     \<lparr>create_outcome =
        (\<lambda>k. if k = 10 then Inl (SandboxError ''quota exceeded'') else Inr (plain_sandbox k)),
      create_calls = 0\<rparr>"

definition fresh_pool :: "e2b \<Rightarrow> pool_state" where
  "fresh_pool w = \<lparr>service = E2BService_init (Some ''key'') None, world = w, executing = []\<rparr>"

definition ten_acquires :: "pool_op list" where
  "ten_acquires =
     map Acquire [''e0'', ''e1'', ''e2'', ''e3'', ''e4'', ''e5'', ''e6'', ''e7'', ''e8'', ''e9'']"

definition live_websocket :: WebSocket where
  "live_websocket = \<lparr>delivered = [], accepts = None\<rparr>"

definition one_client_manager :: WebSocketManager where
  "one_client_manager = WebSocketManager_init\<lparr>active_connections := [(''alice'', 1)]\<rparr>"

definition two_sockets :: "nat \<Rightarrow> channel_state" where
  "two_sockets r = (if r = 1 then Opened else Connecting)"

definition busy_limiter :: RateLimiter where
  "busy_limiter =
     (RateLimiter_init 1 60)\<lparr>requests := (\<lambda>i. if i = ''alice'' then [0, 50] else [])\<rparr>"

definition pruned_limiter :: RateLimiter where
  "pruned_limiter =
     (RateLimiter_init 1 60)\<lparr>requests := (\<lambda>i. if i = ''alice'' then [50] else [])\<rparr>"

definition four_checks :: "(string \<times> real) list" where
  "four_checks = [(''alice'', 0), (''bob'', 1), (''alice'', 10), (''alice'', 20)]"

section \<open>Facts about dictionaries and the pool\<close>

lemma dict_set_length: "length (dict_set k v d) \<le> Suc (length d)"
  by (induction d) auto

lemma dict_del_length: "length (dict_del k d) \<le> length d"
  by (induction d) auto

lemma dict_del_keys: "set (dict_keys (dict_del k d)) \<subseteq> set (dict_keys d)"
  by (induction d) (auto simp: dict_keys_def)

lemma close_session_length:
  "length (active_sessions (close_session svc sid)) \<le> length (active_sessions svc)"
  by (simp add: close_session_def dict_del_length split: option.splits)

lemma close_session_keys:
  "set (dict_keys (active_sessions (close_session svc sid)))
     \<subseteq> set (dict_keys (active_sessions svc))"
  using dict_del_keys by (fastforce simp add: close_session_def split: option.splits)

lemmas pool_defs = run_pool_def fresh_pool_def ten_acquires_def E2BService_init_def
  create_session_def close_session_def AsyncSandbox_create_def plain_sandbox_def
  stuck_sandbox_def

section \<open>The session pool\<close>

text \<open>
  C1 (the number of sessions in \<open>active_sessions\<close> never exceeds \<open>max_sessions = 10\<close>,
  also when closing the evicted session raises). The code breaks the bound exactly
  there: \<open>_close_session\<close> deletes the entry only after \<open>close()\<close> has returned, so a
  \<open>close()\<close> that raises leaves the entry in place and \<open>_create_session\<close> stores the
  new session beside it. Eleven executions start on a fresh service; the sandbox of the
  first one refuses to close. After the eleventh \<open>_create_session\<close> the dictionary
  holds eleven sessions.
\<close>

theorem pool_exceeds_max_sessions_when_close_raises:
  "length (active_sessions (service (run_pool (fresh_pool first_close_fails_e2b)
       (ten_acquires @ [Acquire ''e10''])))) = 11
   \<and> max_sessions (service (run_pool (fresh_pool first_close_fails_e2b)
       (ten_acquires @ [Acquire ''e10'']))) = 10"
  by (simp add: pool_defs first_close_fails_e2b_def)

text \<open>
  C3 as stated (the evicted session is the least recently used idle one; a session
  that is executing is never evicted) fails: ten executions are running, none has
  released its session, and the eleventh \<open>_create_session\<close> removes the session of
  \<open>e0\<close>, which is still executing.
\<close>

theorem eviction_takes_executing_session:
  "''e0'' \<in> set (executing (run_pool (fresh_pool reliable_e2b) ten_acquires))
   \<and> ''e0'' \<in> set (dict_keys (active_sessions (service
          (run_pool (fresh_pool reliable_e2b) ten_acquires))))
   \<and> ''e0'' \<in> set (executing
          (run_pool (fresh_pool reliable_e2b) (ten_acquires @ [Acquire ''e10''])))
   \<and> ''e0'' \<notin> set (dict_keys (active_sessions (service
          (run_pool (fresh_pool reliable_e2b) (ten_acquires @ [Acquire ''e10''])))))"
  by (simp add: pool_defs reliable_e2b_def dict_keys_def)

text \<open>
  C3, amended: when \<open>_create_session\<close> finds the pool at capacity, the session it
  closes and removes is the first entry of \<open>active_sessions\<close> in insertion order,
  whether or not the execution that owns it is still running; the new session is then
  stored under the new id. (Stated for an eviction whose \<open>close()\<close> succeeds and a
  creation that succeeds.)
\<close>

theorem eviction_takes_first_inserted:
  assumes "max_sessions (service s) \<le> length (active_sessions (service s))"
    and "active_sessions (service s) = (oldest, sb) # rest"
    and "close_outcome sb = None"
    and "create_outcome (world s) (create_calls (world s)) = Inr new"
  shows "active_sessions (service (pool_step s (Acquire sid)))
           = dict_set sid new (dict_del oldest rest)
       \<and> executing (pool_step s (Acquire sid)) = executing s @ [sid]"
  using assms by (simp add: create_session_def close_session_def AsyncSandbox_create_def)

theorem eviction_takes_first_inserted_witness:
  "max_sessions (service (run_pool (fresh_pool reliable_e2b) ten_acquires))
     \<le> length (active_sessions (service (run_pool (fresh_pool reliable_e2b) ten_acquires)))
   \<and> dict_keys (active_sessions (service
        (pool_step (run_pool (fresh_pool reliable_e2b) ten_acquires) (Acquire ''e10''))))
       = [''e1'', ''e2'', ''e3'', ''e4'', ''e5'', ''e6'', ''e7'', ''e8'', ''e9'', ''e10'']
   \<and> executing (pool_step (run_pool (fresh_pool reliable_e2b) ten_acquires) (Acquire ''e10''))
       = [''e0'', ''e1'', ''e2'', ''e3'', ''e4'', ''e5'', ''e6'', ''e7'', ''e8'', ''e9'', ''e10'']"
  using eviction_takes_first_inserted
    [of "run_pool (fresh_pool reliable_e2b) ten_acquires" "''e0''" "plain_sandbox 0"
      "tl (active_sessions (service (run_pool (fresh_pool reliable_e2b) ten_acquires)))"
      "plain_sandbox 10" "''e10''"]
  by (simp add: pool_defs reliable_e2b_def dict_keys_def)

section \<open>The streaming generators\<close>

lemma stream_output_endless: "stream_output fuel (\<lambda>i. Line l) i = None"
  by (induction fuel arbitrary: i) auto

text \<open>
  C4 (an execution that produces no terminal event within the timeout is ended with a
  synthesized error "execution timed out"). The generator takes no timeout and its
  loop ends only when the remote stream does: on a process that prints for ever it has
  not returned after any number of items, so nothing is synthesized and the run is
  never stopped.
\<close>

theorem endless_process_never_terminated:
  "execute_python_code fuel (E2BService_init (Some ''key'') None) ''while True: print(1)''
     ''e0'' endless_e2b = None"
  by (simp add: execute_python_code_def is_available_def E2BService_init_def
      run_in_sandbox_def create_session_def AsyncSandbox_create_def endless_e2b_def
      endless_sandbox_def plain_sandbox_def stream_output_endless)

text \<open>
  C5 as stated (a failed sandbox creation is surfaced as a provisioning error and
  leaves the number of sessions unchanged) fails: with ten sessions in the pool the
  generator first evicts the oldest one, then the creation fails; the failure is
  yielded as an ordinary chunk, the generator ends normally, and nine sessions remain.
\<close>

theorem creation_failure_is_a_chunk_after_eviction:
  "length (active_sessions (service
      (run_pool (fresh_pool eleventh_create_fails_e2b) ten_acquires))) = 10
   \<and> map_option (\<lambda>(chunks, svc', w'). (chunks, length (active_sessions svc')))
       (execute_python_code 0
          (service (run_pool (fresh_pool eleventh_create_fails_e2b) ten_acquires))
          ''print(1)'' ''e10''
          (world (run_pool (fresh_pool eleventh_create_fails_e2b) ten_acquires)))
     = Some ([''Execution error: quota exceeded'' @ newline], 9)"
  by (simp add: pool_defs eleventh_create_fails_e2b_def execute_python_code_def
      is_available_def run_in_sandbox_def error_chunk_def)

text \<open>
  C5, amended: when \<open>AsyncSandbox.create\<close> fails inside \<open>execute_python_code\<close> or
  \<open>execute_javascript_code\<close>, the generator does not raise: it yields the single chunk
  "Execution error: <message>" and ends. The failed creation stores nothing, so the
  number of sessions does not grow and no new key appears: the service is unchanged
  when the pool was below \<open>max_sessions\<close>, and at capacity it is the service after the
  attempt to close the oldest session, which precedes the creation.
\<close>

theorem creation_failure_yields_error_chunk:
  assumes "is_available svc" and "0 < max_sessions svc"
    and "create_outcome w (create_calls w) = Inl e"
  shows "\<exists>svc'. execute_python_code fuel svc code execution_id w
            = Some ([error_chunk e], svc', w\<lparr>create_calls := Suc (create_calls w)\<rparr>)
        \<and> execute_javascript_code fuel svc code execution_id w
            = Some ([error_chunk e], svc', w\<lparr>create_calls := Suc (create_calls w)\<rparr>)
        \<and> svc' = (if max_sessions svc \<le> length (active_sessions svc)
                   then close_session svc (fst (hd (active_sessions svc))) else svc)
        \<and> length (active_sessions svc') \<le> length (active_sessions svc)
        \<and> set (dict_keys (active_sessions svc')) \<subseteq> set (dict_keys (active_sessions svc))"
proof (cases "max_sessions svc \<le> length (active_sessions svc)")
  case True
  with assms(2) obtain k sb rest where a: "active_sessions svc = (k, sb) # rest"
    by (cases "active_sessions svc") auto
  show ?thesis
    using assms True a close_session_length[of svc k] close_session_keys[of svc k]
    by (simp add: execute_python_code_def execute_javascript_code_def run_in_sandbox_def
        create_session_def AsyncSandbox_create_def)
next
  case False
  then show ?thesis
    using assms
    by (simp add: execute_python_code_def execute_javascript_code_def run_in_sandbox_def
        create_session_def AsyncSandbox_create_def)
qed

theorem creation_failure_yields_error_chunk_witness:
  "is_available (E2BService_init (Some ''key'') None)
   \<and> execute_python_code 0 (E2BService_init (Some ''key'') None) ''print(1)'' ''e0''
        (eleventh_create_fails_e2b\<lparr>create_calls := 10\<rparr>)
      = Some ([''Execution error: quota exceeded'' @ newline],
              E2BService_init (Some ''key'') None,
              eleventh_create_fails_e2b\<lparr>create_calls := 11\<rparr>)"
  using creation_failure_yields_error_chunk
    [of "E2BService_init (Some ''key'') None"
      "eleventh_create_fails_e2b\<lparr>create_calls := 10\<rparr>"
      "SandboxError ''quota exceeded''" 0 "''print(1)''" "''e0''"]
  by (simp add: is_available_def E2BService_init_def eleventh_create_fails_e2b_def
      error_chunk_def)

text \<open>
  C9: when the service is unavailable (\<open>is_available\<close> is false), both generators
  yield exactly one informational chunk and end; the service, and with it
  \<open>active_sessions\<close>, is unchanged, and so is the collaborator: \<open>AsyncSandbox.create\<close>
  has not been called.
\<close>

theorem unavailable_service_yields_one_chunk:
  "\<not> is_available svc \<Longrightarrow>
     execute_python_code fuel svc code execution_id w = Some ([not_available_chunk], svc, w)
   \<and> execute_javascript_code fuel svc code execution_id w
       = Some ([not_available_chunk], svc, w)"
  by (simp add: execute_python_code_def execute_javascript_code_def)

theorem unavailable_service_yields_one_chunk_witness:
  "\<not> is_available (E2BService_init None None)
   \<and> execute_python_code 0 (E2BService_init None None) ''print(1)'' ''e0'' reliable_e2b
       = Some ([not_available_chunk], E2BService_init None None, reliable_e2b)
   \<and> execute_javascript_code 0 (E2BService_init None None) ''1'' ''e0'' reliable_e2b
       = Some ([not_available_chunk], E2BService_init None None, reliable_e2b)"
  using unavailable_service_yields_one_chunk
    [of "E2BService_init None None" 0 "''print(1)''" "''e0''" reliable_e2b]
    unavailable_service_yields_one_chunk
    [of "E2BService_init None None" 0 "''1''" "''e0''" reliable_e2b]
  by (simp add: is_available_def E2BService_init_def)

section \<open>The dispatcher\<close>

lemma send_text_can_send:
  "can_send ws (Suc n) \<Longrightarrow>
     \<exists>ws'. send_text ws ev = Inr ws' \<and> delivered ws' = delivered ws @ [ev] \<and> can_send ws' n"
  by (auto simp: send_text_def can_send_def split: option.splits nat.splits)

text \<open>
  What \<open>handle_code_execution\<close> does for every request, on a channel that takes its
  sends: it returns (for any fuel) having delivered the same two events,
  \<open>execution_start\<close> and then \<open>execution_error\<close>, because the \<open>await\<close> of the
  generator object (or the unsupported language) raises inside the \<open>try\<close>. No
  \<open>execution_output\<close> and no \<open>execution_complete\<close> is ever sent, and the service and
  the collaborator are untouched: the generator is never started.
\<close>

theorem handler_answers_every_request_with_error:
  assumes "can_send websocket 2"
  shows "\<exists>websocket' evs reason.
           handle_code_execution fuel websocket client_id message uuid svc w
             = Some (None, websocket', svc, w)
         \<and> delivered websocket' = delivered websocket @ evs
         \<and> evs = [execution_start uuid ''Starting code execution...'',
                   execution_error (Some uuid) reason]
         \<and> well_terminated evs
         \<and> list_all (\<lambda>ev. event_id ev = Some uuid) evs"
proof -
  let ?start = "execution_start uuid ''Starting code execution...''"
  from assms have "can_send websocket (Suc 1)" by (simp add: numeral_2_eq_2)
  from send_text_can_send[OF this, of ?start]
  obtain ws1 where s1: "send_text websocket ?start = Inr ws1"
    and d1: "delivered ws1 = delivered websocket @ [?start]" and c1: "can_send ws1 1"
    by blast
  obtain e where tb: "try_body fuel websocket message uuid svc w = Some (Inl (e, ws1, svc, w))"
    using s1 by (cases "message_get message ''language'' ''python'' = ''python''";
        cases "message_get message ''language'' ''python'' = ''javascript''")
      (simp_all add: try_body_def await_async_generator_def Let_def)
  from c1 have "can_send ws1 (Suc 0)" by simp
  from send_text_can_send[OF this, of "execution_error (Some uuid) (str e)"]
  obtain ws2 where s2: "send_text ws1 (execution_error (Some uuid) (str e)) = Inr ws2"
    and d2: "delivered ws2 = delivered ws1 @ [execution_error (Some uuid) (str e)]"
    by blast
  have "handle_code_execution fuel websocket client_id message uuid svc w
          = Some (None, ws2, svc, w)"
    using tb s2 by (simp add: handle_code_execution_def)
  then show ?thesis using d1 d2 by (simp add: well_terminated_def)
qed

theorem handler_answers_every_request_with_error_witness:
  "can_send live_websocket 2
   \<and> handle_code_execution 0 live_websocket ''client-1''
        [(''type'', ''code_execution''), (''code'', ''print(1)''), (''language'', ''python'')]
        ''id-1'' (E2BService_init (Some ''key'') None) reliable_e2b
     = Some (None,
         \<lparr>delivered = [execution_start ''id-1'' ''Starting code execution...'',
                        execution_error (Some ''id-1'')
                          (''object async_generator can'' @ quote @ ''t be used in ''
                            @ quote @ ''await'' @ quote @ '' expression'')],
           accepts = None\<rparr>,
         E2BService_init (Some ''key'') None, reliable_e2b)"
  using handler_answers_every_request_with_error [of live_websocket 0 "''client-1''"
      "[(''type'', ''code_execution''), (''code'', ''print(1)''), (''language'', ''python'')]"
      "''id-1''" "E2BService_init (Some ''key'') None" reliable_e2b]
  by (simp add: can_send_def live_websocket_def handle_code_execution_def try_body_def
      message_get_def send_text_def await_async_generator_def)


section \<open>The connection registry\<close>

lemma dict_set_present:
  "map_of d k = Some old \<Longrightarrow>
     map_of (dict_set k v d) k = Some v \<and> length (dict_set k v d) = length d
     \<and> dict_keys (dict_set k v d) = dict_keys d"
  by (induction d) (auto simp: dict_keys_def)

lemma dict_set_other: "k' \<noteq> k \<Longrightarrow> map_of (dict_set k v d) k' = map_of d k'"
  by (induction d) auto

text \<open>
  C6 as stated (the new connection replaces the prior one and the superseded channel
  is closed) fails: \<open>alice\<close> is registered with the open socket 1 and connects again
  with socket 2; the registry then maps her to socket 2, and socket 1 is still open.
\<close>

theorem superseded_channel_stays_open:
  "connect one_client_manager two_sockets 2 ''alice''
     = (None, one_client_manager\<lparr>active_connections := [(''alice'', 2)]\<rparr>,
        two_sockets(2 := Opened))
   \<and> (two_sockets(2 := Opened)) 1 = Opened"
  by (simp add: connect_def one_client_manager_def WebSocketManager_init_def two_sockets_def
      ws_accept_def)

text \<open>
  C6, amended: for every \<open>connect\<close> of a client id that is registered already, with a
  socket that awaits its handshake: while fewer than \<open>max_connections\<close> connections
  are registered, the new socket is accepted and replaces the prior one in the
  registry (last writer wins; the keys, their order and the other clients' entries are
  unchanged), and \<open>connect\<close> does not close the superseded socket, whose state is what
  it was; at \<open>max_connections\<close> the new socket is closed with code 1008 and the
  registry is unchanged.
\<close>

theorem connect_replaces_without_closing:
  assumes "map_of (active_connections mgr) client_id = Some old"
    and "store websocket = Connecting"
    and "old \<noteq> websocket"
  shows "if length (active_connections mgr) < max_connections mgr then
           (\<exists>mgr'. connect mgr store websocket client_id
                      = (None, mgr', store(websocket := Opened))
              \<and> map_of (active_connections mgr') client_id = Some websocket
              \<and> dict_keys (active_connections mgr') = dict_keys (active_connections mgr)
              \<and> (\<forall>c. c \<noteq> client_id \<longrightarrow>
                    map_of (active_connections mgr') c = map_of (active_connections mgr) c)
              \<and> (store(websocket := Opened)) old = store old)
         else connect mgr store websocket client_id
                = (None, mgr, store(websocket := Closed 1008 ''Maximum connections reached''))"
  using assms dict_set_present[OF assms(1), of websocket]
  by (auto simp add: connect_def ws_accept_def ws_close_def dict_set_other)

theorem connect_replaces_without_closing_witness:
  "map_of (active_connections one_client_manager) ''alice'' = Some 1
   \<and> two_sockets 2 = Connecting
   \<and> connect one_client_manager two_sockets 2 ''alice''
       = (None, one_client_manager\<lparr>active_connections := [(''alice'', 2)]\<rparr>,
          two_sockets(2 := Opened))"
  using connect_replaces_without_closing [of one_client_manager "''alice''" 1 two_sockets 2]
  by (simp add: connect_def one_client_manager_def WebSocketManager_init_def two_sockets_def
      ws_accept_def)

section \<open>The concurrency gate\<close>




section \<open>The sliding window\<close>

text \<open>
  C10: \<open>is_allowed\<close> records the clock reading exactly when it admits. After a
  rejected check the client's list is the old one without the expired entries, the
  other clients' lists and the configuration are untouched, and every later check of
  the client goes exactly as it would have gone without the rejected one: a rejected
  request neither uses quota nor delays the next admission.
\<close>

theorem rejected_request_is_not_recorded:
  assumes "is_allowed rl identifier now = (ok, rl')"
  shows "requests rl' identifier
           = filter (\<lambda>req_time. now - of_int (window_seconds rl) < req_time)
               (requests rl identifier)
               @ (if ok then [now] else [])
       \<and> (\<forall>other. other \<noteq> identifier \<longrightarrow> requests rl' other = requests rl other)
       \<and> max_requests rl' = max_requests rl \<and> window_seconds rl' = window_seconds rl
       \<and> (\<not> ok \<and> now \<le> later
            \<longrightarrow> is_allowed rl' identifier later = is_allowed rl identifier later)"
proof -
  let ?W = "of_int (window_seconds rl) :: real"
  let ?kept = "filter (\<lambda>t. now - ?W < t) (requests rl identifier)"
  have a: "requests rl' identifier = ?kept @ (if ok then [now] else [])"
    and b: "\<forall>other. other \<noteq> identifier \<longrightarrow> requests rl' other = requests rl other"
    and c: "max_requests rl' = max_requests rl" "window_seconds rl' = window_seconds rl"
    using assms by (auto simp add: is_allowed_def Let_def split: if_splits)
  have d: "is_allowed rl' identifier later = is_allowed rl identifier later"
    if "\<not> ok" "now \<le> later"
  proof -
    from that assms have rl': "rl' = rl\<lparr>requests := (requests rl)(identifier := ?kept)\<rparr>"
      by (auto simp add: is_allowed_def Let_def split: if_splits)
    have "filter (\<lambda>t. later - ?W < t) ?kept
            = filter (\<lambda>t. later - ?W < t) (requests rl identifier)"
      using that(2) by (auto intro!: filter_cong)
    then show ?thesis by (simp add: rl' is_allowed_def Let_def)
  qed
  show ?thesis using a b c d by blast
qed

theorem rejected_request_is_not_recorded_witness:
  "is_allowed busy_limiter ''alice'' 70 = (False, pruned_limiter)
   \<and> requests busy_limiter ''alice'' = [0, 50]
   \<and> requests pruned_limiter ''alice'' = [50]
   \<and> is_allowed pruned_limiter ''alice'' 115 = is_allowed busy_limiter ''alice'' 115
   \<and> fst (is_allowed busy_limiter ''alice'' 115)"
  using rejected_request_is_not_recorded
    [of busy_limiter "''alice''" 70 False pruned_limiter 115]
  by (auto simp add: is_allowed_def RateLimiter_init_def Let_def fun_eq_iff
      busy_limiter_def pruned_limiter_def)

lemma is_allowed_config:
  "max_requests (snd (is_allowed rl c t)) = max_requests rl"
  "window_seconds (snd (is_allowed rl c t)) = window_seconds rl"
  by (simp_all add: is_allowed_def Let_def)

lemma is_allowed_requests:
  "requests (snd (is_allowed rl c t)) c
     = filter (\<lambda>u. t - of_int (window_seconds rl) < u) (requests rl c)
         @ (if fst (is_allowed rl c t) then [t] else [])"
  by (simp add: is_allowed_def Let_def)

lemma is_allowed_other:
  "c' \<noteq> c \<Longrightarrow> requests (snd (is_allowed rl c' t)) c = requests rl c"
  by (simp add: is_allowed_def Let_def)

lemma is_allowed_fst:
  "fst (is_allowed rl c t)
     = (int (length (filter (\<lambda>u. t - of_int (window_seconds rl) < u) (requests rl c)))
          < max_requests rl)"
  by (simp add: is_allowed_def Let_def)

lemma checks_Cons:
  "checks rl ((c, t) # rest)
     = (fst (is_allowed rl c t) # fst (checks (snd (is_allowed rl c t)) rest),
        snd (checks (snd (is_allowed rl c t)) rest))"
  by (simp split: prod.splits)

lemma checks_snoc:
  "checks rl (p @ [(c, t)])
     = (fst (checks rl p) @ [fst (is_allowed (snd (checks rl p)) c t)],
        snd (is_allowed (snd (checks rl p)) c t))"
proof (induction rl p rule: checks.induct)
  case (1 rl)
  show ?case by (simp split: prod.splits)
next
  case (2 rl c now rest)
  from 2[of "fst (is_allowed rl c now)" "snd (is_allowed rl c now)"]
  show ?case by (simp add: checks_Cons del: checks.simps)
qed

lemma checks_length: "length (fst (checks rl p)) = length p"
proof (induction rl p rule: checks.induct)
  case (1 rl)
  show ?case by simp
next
  case (2 rl c now rest)
  from 2[of "fst (is_allowed rl c now)" "snd (is_allowed rl c now)"]
  show ?case by (simp add: checks_Cons del: checks.simps)
qed

lemma checks_config:
  "max_requests (snd (checks rl p)) = max_requests rl
   \<and> window_seconds (snd (checks rl p)) = window_seconds rl"
proof (induction p arbitrary: rl)
  case Nil
  show ?case by simp
next
  case (Cons x p)
  obtain c t where x: "x = (c, t)" by (cases x)
  show ?case using Cons[of "snd (is_allowed rl c t)"] is_allowed_config[of rl c t]
    by (simp add: x checks_Cons del: checks.simps)
qed

lemma admitted_snoc:
  "admitted rl (p @ [(c', t)]) c
     = admitted rl p c @ (if fst (is_allowed (snd (checks rl p)) c' t) \<and> c' = c then [t] else [])"
  by (auto simp add: admitted_def checks_snoc checks_length)

lemma admitted_Nil: "admitted rl [] c = []"
  by (simp add: admitted_def)

lemma filter_filter_window:
  fixes t t' W :: real
  assumes "t' \<le> t"
  shows "filter (\<lambda>u. t - W < u) (filter (\<lambda>u. t' - W < u) xs) = filter (\<lambda>u. t - W < u) xs"
  using assms by (induction xs) auto

lemma length_filter_mono:
  "(\<And>x. x \<in> set xs \<Longrightarrow> P x \<Longrightarrow> Q x) \<Longrightarrow> length (filter P xs) \<le> length (filter Q xs)"
  by (induction xs) auto

text \<open>What the limiter has recorded for a client agrees, inside every window that ends
  no earlier than the last check, with the admitted requests.\<close>

lemma recorded_window:
  assumes "sorted (map snd p)" and "requests rl c = []"
    and "\<forall>x\<in>set p. snd x \<le> t"
  shows "filter (\<lambda>u. t - of_int (window_seconds rl) < u) (requests (snd (checks rl p)) c)
           = filter (\<lambda>u. t - of_int (window_seconds rl) < u) (admitted rl p c)"
  using assms
proof (induction p arbitrary: t rule: rev_induct)
  case Nil
  then show ?case by (simp add: admitted_Nil)
next
  case (snoc x p)
  obtain c' now where x: "x = (c', now)" by (cases x)
  from snoc.prems have sp: "sorted (map snd p)" and le: "\<forall>y\<in>set p. snd y \<le> now"
    and nt: "now \<le> t" and pt: "\<forall>y\<in>set p. snd y \<le> t"
    by (auto simp add: x sorted_append)
  let ?rl = "snd (checks rl p)"
  let ?W = "of_int (window_seconds rl) :: real"
  have W: "window_seconds ?rl = window_seconds rl" using checks_config by blast
  show ?case
  proof (cases "c' = c")
    case False
    then show ?thesis
      using snoc.IH[OF sp snoc.prems(2) pt]
      by (simp add: x checks_snoc admitted_snoc is_allowed_other)
  next
    case True
    have "filter (\<lambda>u. t - ?W < u) (filter (\<lambda>u. now - ?W < u) (requests ?rl c))
            = filter (\<lambda>u. t - ?W < u) (requests ?rl c)"
      using nt by (rule filter_filter_window)
    also have "\<dots> = filter (\<lambda>u. t - ?W < u) (admitted rl p c)"
      by (rule snoc.IH[OF sp snoc.prems(2) pt])
    finally show ?thesis
      by (simp add: x True checks_snoc admitted_snoc is_allowed_requests W)
  qed
qed

lemma recorded_le_admitted:
  assumes "requests rl c = []"
  shows "length (requests (snd (checks rl p)) c) \<le> length (admitted rl p c)
       \<and> set (requests (snd (checks rl p)) c) \<subseteq> set (admitted rl p c)"
proof (induction p rule: rev_induct)
  case Nil
  then show ?case using assms by (simp add: admitted_Nil)
next
  case (snoc x p)
  obtain c' now where x: "x = (c', now)" by (cases x)
  let ?rl = "snd (checks rl p)"
  have l: "length (filter (\<lambda>u. now - of_int (window_seconds ?rl) < u) (requests ?rl c))
            \<le> length (admitted rl p c)"
    by (rule le_trans[OF length_filter_le]) (use snoc in simp)
  show ?case
  proof (cases "c' = c")
    case False
    then show ?thesis using snoc
      by (simp add: x checks_snoc admitted_snoc is_allowed_other)
  next
    case True
    then show ?thesis using snoc l
      by (auto simp add: x checks_snoc admitted_snoc is_allowed_requests)
  qed
qed

lemma admitted_subset_calls:
  "u \<in> set (admitted rl p c) \<Longrightarrow> \<exists>x\<in>set p. fst x = c \<and> snd x = u"
proof (induction p rule: rev_induct)
  case Nil
  then show ?case by (simp add: admitted_Nil)
next
  case (snoc x p)
  obtain c' now where x: "x = (c', now)" by (cases x)
  from snoc.prems have "u \<in> set (admitted rl p c) \<or> (c' = c \<and> u = now)"
    by (auto simp add: x admitted_snoc split: if_splits)
  then show ?case using snoc.IH by (auto simp add: x)
qed

lemma admitted_bound:
  assumes "sorted (map snd p)" and "requests rl c = []" and "0 \<le> max_requests rl"
  shows "int (length (filter (\<lambda>u. t - of_int (window_seconds rl) < u \<and> u \<le> t) (admitted rl p c)))
           \<le> max_requests rl"
  using assms(1)
proof (induction p arbitrary: t rule: rev_induct)
  case Nil
  then show ?case using assms(3) by (simp add: admitted_Nil)
next
  case (snoc x p)
  obtain c' now where x: "x = (c', now)" by (cases x)
  from snoc.prems have sp: "sorted (map snd p)" and le: "\<forall>y\<in>set p. snd y \<le> now"
    by (auto simp add: x sorted_append)
  let ?rl = "snd (checks rl p)"
  let ?W = "of_int (window_seconds rl) :: real"
  let ?A = "admitted rl p c"
  have W: "window_seconds ?rl = window_seconds rl" and M: "max_requests ?rl = max_requests rl"
    using checks_config by blast+
  show ?case
  proof (cases "c' = c \<and> fst (is_allowed ?rl c now) \<and> t - ?W < now \<and> now \<le> t")
    case False
    then show ?thesis using snoc.IH[OF sp, of t]
      by (auto simp add: x admitted_snoc)
  next
    case True
    then have adm: "fst (is_allowed ?rl c now)" and nt: "now \<le> t" and tn: "t - ?W < now"
      and cc: "c' = c" by auto
    from adm have "int (length (filter (\<lambda>u. now - ?W < u) (requests ?rl c))) < max_requests rl"
      by (simp add: is_allowed_fst W M)
    moreover have "filter (\<lambda>u. now - ?W < u) (requests ?rl c) = filter (\<lambda>u. now - ?W < u) ?A"
      by (rule recorded_window[OF sp assms(2) le])
    ultimately have k: "int (length (filter (\<lambda>u. now - ?W < u) ?A)) < max_requests rl" by simp
    have "length (filter (\<lambda>u. t - ?W < u \<and> u \<le> t) ?A) \<le> length (filter (\<lambda>u. now - ?W < u) ?A)"
      using nt by (intro length_filter_mono) auto
    with k show ?thesis using adm nt tn cc
      by (simp add: x admitted_snoc)
  qed
qed

lemma all_admitted:
  assumes "requests rl c = []"
    and "int (length (filter (\<lambda>x. fst x = c) p)) \<le> max_requests rl"
  shows "admitted rl p c = map snd (filter (\<lambda>x. fst x = c) p)"
  using assms(2)
proof (induction p rule: rev_induct)
  case Nil
  then show ?case by (simp add: admitted_Nil)
next
  case (snoc x p)
  obtain c' now where x: "x = (c', now)" by (cases x)
  let ?rl = "snd (checks rl p)"
  show ?case
  proof (cases "c' = c")
    case False
    then show ?thesis using snoc by (simp add: x admitted_snoc)
  next
    case True
    with snoc.prems have lt: "int (length (filter (\<lambda>x. fst x = c) p)) < max_requests rl"
      by (simp add: x)
    then have IH: "admitted rl p c = map snd (filter (\<lambda>x. fst x = c) p)"
      using snoc.IH by simp
    have "length (filter (\<lambda>u. now - of_int (window_seconds ?rl) < u) (requests ?rl c))
            \<le> length (admitted rl p c)"
      by (rule le_trans[OF length_filter_le]) (use recorded_le_admitted[OF assms(1)] in blast)
    with lt IH have "fst (is_allowed ?rl c now)"
      using checks_config[of rl p] by (simp add: is_allowed_fst)
    then show ?thesis using IH True by (simp add: x admitted_snoc)
  qed
qed

text \<open>
  C7: for every client that starts with an empty record, and every run of checks whose
  clock readings do not decrease (other clients' checks interleaved at will):
  the admitted requests of the client inside any trailing window of \<open>window_seconds\<close>
  number at most \<open>max_requests\<close>; when the client has issued \<open>max_requests\<close>
  requests and issues one more while all of them are still inside the window, that
  last request is rejected; and a check made once a full window has passed since the
  client's last request is admitted (for \<open>max_requests > 0\<close>).
\<close>

theorem sliding_window_admits_at_most_max_requests:
  assumes "sorted (map snd calls)" and "requests rl c = []" and "0 \<le> max_requests rl"
  shows "(\<forall>t. int (length (filter (\<lambda>u. t - of_int (window_seconds rl) < u \<and> u \<le> t)
                              (admitted rl calls c))) \<le> max_requests rl)
       \<and> (\<forall>pre t_f. calls = pre @ [(c, t_f)]
              \<and> int (length (filter (\<lambda>x. fst x = c) pre)) = max_requests rl
              \<and> (\<forall>x\<in>set pre. fst x = c \<longrightarrow> t_f - of_int (window_seconds rl) < snd x)
            \<longrightarrow> last (fst (checks rl calls)) = False)
       \<and> (\<forall>t_next. 0 < max_requests rl
              \<and> (\<forall>x\<in>set calls. fst x = c \<longrightarrow> snd x + of_int (window_seconds rl) \<le> t_next)
            \<longrightarrow> fst (is_allowed (snd (checks rl calls)) c t_next))"
proof (intro conjI allI impI)
  fix t
  show "int (length (filter (\<lambda>u. t - of_int (window_seconds rl) < u \<and> u \<le> t)
                (admitted rl calls c))) \<le> max_requests rl"
    by (rule admitted_bound[OF assms])
next
  fix pre t_f
  let ?W = "of_int (window_seconds rl) :: real"
  let ?rl = "snd (checks rl pre)"
  assume h: "calls = pre @ [(c, t_f)]
     \<and> int (length (filter (\<lambda>x. fst x = c) pre)) = max_requests rl
     \<and> (\<forall>x\<in>set pre. fst x = c \<longrightarrow> t_f - ?W < snd x)"
  then have calls: "calls = pre @ [(c, t_f)]"
    and n: "int (length (filter (\<lambda>x. fst x = c) pre)) = max_requests rl"
    and win: "\<forall>x\<in>set pre. fst x = c \<longrightarrow> t_f - ?W < snd x" by auto
  from assms(1) have sp: "sorted (map snd pre)" and le: "\<forall>y\<in>set pre. snd y \<le> t_f"
    by (auto simp add: calls sorted_append)
  have A: "admitted rl pre c = map snd (filter (\<lambda>x. fst x = c) pre)"
    by (rule all_admitted[OF assms(2)]) (simp add: n)
  have "filter (\<lambda>u. t_f - ?W < u) (requests ?rl c) = filter (\<lambda>u. t_f - ?W < u) (admitted rl pre c)"
    by (rule recorded_window[OF sp assms(2) le])
  also have "\<dots> = admitted rl pre c"
  proof (rule filter_True)
    show "\<forall>u\<in>set (admitted rl pre c). t_f - ?W < u"
      using win by (auto simp add: A)
  qed
  finally have "int (length (filter (\<lambda>u. t_f - ?W < u) (requests ?rl c))) = max_requests rl"
    by (simp add: A n)
  then have "\<not> fst (is_allowed ?rl c t_f)"
    using checks_config[of rl pre] by (simp add: is_allowed_fst)
  then show "last (fst (checks rl calls)) = False"
    by (simp add: calls checks_snoc)
next
  fix t_next
  let ?W = "of_int (window_seconds rl) :: real"
  let ?rl = "snd (checks rl calls)"
  assume h: "0 < max_requests rl
     \<and> (\<forall>x\<in>set calls. fst x = c \<longrightarrow> snd x + ?W \<le> t_next)"
  have "\<not> t_next - ?W < u" if "u \<in> set (requests ?rl c)" for u
  proof -
    from that recorded_le_admitted[OF assms(2), of calls] have "u \<in> set (admitted rl calls c)"
      by blast
    from admitted_subset_calls[OF this] h have "u + ?W \<le> t_next" by auto
    then show ?thesis by linarith
  qed
  then have "filter (\<lambda>u. t_next - ?W < u) (requests ?rl c) = []"
    by (simp add: filter_empty_conv)
  with h show "fst (is_allowed ?rl c t_next)"
    using checks_config[of rl calls] by (simp add: is_allowed_fst)
qed

theorem sliding_window_admits_at_most_max_requests_witness:
  "sorted (map snd four_checks)
   \<and> requests (RateLimiter_init 2 60) ''alice'' = []
   \<and> four_checks = [(''alice'', 0), (''bob'', 1), (''alice'', 10)] @ [(''alice'', 20)]
   \<and> int (length (filter (\<lambda>x. fst x = ''alice'')
                     [(''alice'', 0::real), (''bob'', 1), (''alice'', 10)])) = 2
   \<and> fst (checks (RateLimiter_init 2 60) four_checks) = [True, True, True, False]
   \<and> last (fst (checks (RateLimiter_init 2 60) four_checks)) = False
   \<and> int (length (filter (\<lambda>u. 20 - 60 < u \<and> u \<le> 20)
                     (admitted (RateLimiter_init 2 60) four_checks ''alice''))) \<le> 2
   \<and> fst (is_allowed (snd (checks (RateLimiter_init 2 60) four_checks)) ''alice'' 80)"
proof -
  let ?rl = "RateLimiter_init 2 60"
  have s: "sorted (map snd four_checks)" by (simp add: four_checks_def)
  have f: "requests ?rl ''alice'' = []" by (simp add: RateLimiter_init_def)
  have m: "0 \<le> max_requests ?rl" by (simp add: RateLimiter_init_def)
  have c: "four_checks = [(''alice'', 0), (''bob'', 1), (''alice'', 10)] @ [(''alice'', 20)]"
    by (simp add: four_checks_def)
  have n: "int (length (filter (\<lambda>x. fst x = ''alice'')
                     [(''alice'', 0::real), (''bob'', 1), (''alice'', 10)])) = 2" by simp
  have e: "fst (checks ?rl four_checks) = [True, True, True, False]"
    by (simp add: four_checks_def RateLimiter_init_def is_allowed_def Let_def)
  note T = sliding_window_admits_at_most_max_requests [OF s f m]
  have p1: "int (length (filter (\<lambda>u. 20 - 60 < u \<and> u \<le> 20)
                     (admitted ?rl four_checks ''alice''))) \<le> 2"
    using T[THEN conjunct1, rule_format, of 20] by (simp add: RateLimiter_init_def)
  have p2: "last (fst (checks ?rl four_checks)) = False"
  proof (rule T[THEN conjunct2, THEN conjunct1, rule_format,
        of "[(''alice'', 0), (''bob'', 1), (''alice'', 10)]" 20])
    show "four_checks = [(''alice'', 0), (''bob'', 1), (''alice'', 10)] @ [(''alice'', 20)]
      \<and> int (length (filter (\<lambda>x. fst x = ''alice'')
            [(''alice'', 0::real), (''bob'', 1), (''alice'', 10)])) = max_requests ?rl
      \<and> (\<forall>x\<in>set [(''alice'', 0::real), (''bob'', 1), (''alice'', 10)].
            fst x = ''alice'' \<longrightarrow> 20 - of_int (window_seconds ?rl) < snd x)"
      by (simp add: four_checks_def RateLimiter_init_def)
  qed
  have p3: "fst (is_allowed (snd (checks ?rl four_checks)) ''alice'' 80)"
  proof (rule T[THEN conjunct2, THEN conjunct2, rule_format, of 80])
    show "0 < max_requests ?rl
      \<and> (\<forall>x\<in>set four_checks. fst x = ''alice'' \<longrightarrow> snd x + of_int (window_seconds ?rl) \<le> 80)"
      by (simp add: four_checks_def RateLimiter_init_def)
  qed
  show ?thesis using s f c n e p1 p2 p3 by blast
qed

section \<open>Further properties of the pool and the dispatcher\<close>

lemma dict_del_set: "set (dict_del k d) \<subseteq> set d"
  by (induction d) auto

lemma dict_set_set: "set (dict_set k v d) \<subseteq> insert (k, v) (set d)"
  by (induction d) auto

lemma close_session_config:
  "max_sessions (close_session svc sid) = max_sessions svc"
  "set (active_sessions (close_session svc sid)) \<subseteq> set (active_sessions svc)"
  using dict_del_set[of sid "active_sessions svc"]
  by (auto simp add: close_session_def split: option.splits)

lemma close_head_length:
  assumes "active_sessions svc = (k, sb) # rest" and "close_outcome sb = None"
  shows "length (active_sessions (close_session svc k)) \<le> length rest"
  using assms dict_del_length[of k rest] by (simp add: close_session_def)

lemma pool_step_bounded:
  assumes "0 < max_sessions (service s)"
    and "length (active_sessions (service s)) \<le> max_sessions (service s)"
    and "closes_cleanly s"
  shows "max_sessions (service (pool_step s op)) = max_sessions (service s)
       \<and> length (active_sessions (service (pool_step s op))) \<le> max_sessions (service s)
       \<and> closes_cleanly (pool_step s op)"
proof (cases op)
  case (Release sid)
  show ?thesis
    using assms close_session_length[of "service s" sid] close_session_config[of "service s" sid]
    by (auto simp add: Release closes_cleanly_def list_all_iff)
next
  case (Acquire sid)
  let ?svc = "service s" and ?w = "world s"
  define svc1 where "svc1 = (if max_sessions ?svc \<le> length (active_sessions ?svc)
      then close_session ?svc (fst (hd (active_sessions ?svc))) else ?svc)"
  have nonempty: "active_sessions ?svc \<noteq> []" if "max_sessions ?svc \<le> length (active_sessions ?svc)"
    using that assms(1) by auto
  have m1: "max_sessions svc1 = max_sessions ?svc"
    by (simp add: svc1_def close_session_config)
  have sub1: "set (active_sessions svc1) \<subseteq> set (active_sessions ?svc)"
    using close_session_config(2) by (simp add: svc1_def)
  have len1: "length (active_sessions svc1) < max_sessions ?svc"
  proof (cases "max_sessions ?svc \<le> length (active_sessions ?svc)")
    case True
    then obtain k sb rest where a: "active_sessions ?svc = (k, sb) # rest"
      using nonempty by (cases "active_sessions ?svc") auto
    with assms(3) have "close_outcome sb = None" by (simp add: closes_cleanly_def)
    from close_head_length[OF a this] a assms(2) True show ?thesis
      by (simp add: svc1_def)
  next
    case False
    then show ?thesis by (simp add: svc1_def)
  qed
  have cs: "create_session ?svc sid ?w =
      (case create_outcome ?w (create_calls ?w) of
         Inl e \<Rightarrow> (Inl e, svc1, ?w\<lparr>create_calls := Suc (create_calls ?w)\<rparr>)
       | Inr sb \<Rightarrow> (Inr sb, svc1\<lparr>active_sessions := dict_set sid sb (active_sessions svc1)\<rparr>,
                    ?w\<lparr>create_calls := Suc (create_calls ?w)\<rparr>))"
    using nonempty
    by (cases "active_sessions ?svc")
      (auto simp add: create_session_def AsyncSandbox_create_def svc1_def Let_def
        split: sum.splits prod.splits)
  show ?thesis
  proof (cases "create_outcome ?w (create_calls ?w)")
    case (Inl e)
    then show ?thesis using assms m1 sub1 len1
      by (auto simp add: Acquire cs closes_cleanly_def list_all_iff)
  next
    case (Inr sb)
    with assms(3) have ok: "close_outcome sb = None" by (auto simp add: closes_cleanly_def)
    have "length (dict_set sid sb (active_sessions svc1)) \<le> max_sessions ?svc"
      using dict_set_length[of sid sb "active_sessions svc1"] len1 by linarith
    moreover have "\<forall>p \<in> set (dict_set sid sb (active_sessions svc1)). close_outcome (snd p) = None"
      using dict_set_set[of sid sb "active_sessions svc1"] sub1 ok assms(3)
      by (fastforce simp add: closes_cleanly_def list_all_iff)
    ultimately show ?thesis using assms(3) m1 Inr
      by (auto simp add: Acquire cs closes_cleanly_def list_all_iff)
  qed
qed

text \<open>
  The bound of the pool where no \<open>close()\<close> raises: from a state within the bound
  (\<open>max_sessions > 0\<close>) whose sandboxes all close cleanly, no sequence of
  \<open>_create_session\<close> and \<open>_close_session\<close> calls takes the number of sessions above
  \<open>max_sessions\<close>.
\<close>

theorem pool_bounded_when_closes_succeed:
  assumes "0 < max_sessions (service s)"
    and "length (active_sessions (service s)) \<le> max_sessions (service s)"
    and "closes_cleanly s"
  shows "length (active_sessions (service (run_pool s ops))) \<le> max_sessions (service s)"
proof -
  have "max_sessions (service (foldl pool_step s ops)) = max_sessions (service s)
      \<and> length (active_sessions (service (foldl pool_step s ops))) \<le> max_sessions (service s)
      \<and> closes_cleanly (foldl pool_step s ops)"
    using assms
  proof (induction ops arbitrary: s)
    case Nil
    then show ?case by simp
  next
    case (Cons op ops)
    from pool_step_bounded[OF Cons.prems, of op]
    have a: "max_sessions (service (pool_step s op)) = max_sessions (service s)"
      and b: "length (active_sessions (service (pool_step s op))) \<le> max_sessions (service s)"
      and c: "closes_cleanly (pool_step s op)" by auto
    from Cons.IH[of "pool_step s op"] a b c Cons.prems(1) show ?case by simp
  qed
  then show ?thesis by (simp add: run_pool_def)
qed

theorem pool_bounded_when_closes_succeed_witness:
  "closes_cleanly (fresh_pool reliable_e2b)
   \<and> length (active_sessions (service (run_pool (fresh_pool reliable_e2b)
        (ten_acquires @ [Acquire ''e10'', Release ''e3'', Acquire ''e11''])))) = 10"
proof -
  have c: "closes_cleanly (fresh_pool reliable_e2b)"
    by (simp add: closes_cleanly_def fresh_pool_def reliable_e2b_def E2BService_init_def
        plain_sandbox_def)
  have "length (active_sessions (service (run_pool (fresh_pool reliable_e2b)
        (ten_acquires @ [Acquire ''e10'', Release ''e3'', Acquire ''e11'']))))
      \<le> max_sessions (service (fresh_pool reliable_e2b))"
    by (rule pool_bounded_when_closes_succeed[OF _ _ c]) (simp_all add: fresh_pool_def E2BService_init_def)
  moreover have "length (active_sessions (service (run_pool (fresh_pool reliable_e2b)
        (ten_acquires @ [Acquire ''e10'', Release ''e3'', Acquire ''e11''])))) = 10"
    by (simp add: pool_defs reliable_e2b_def)
  ultimately show ?thesis using c by simp
qed

text \<open>
  On a channel whose peer is gone \<open>handle_code_execution\<close> delivers nothing: the
  send of \<open>execution_start\<close> raises, the send of \<open>execution_error\<close> in the
  \<open>except\<close> clause raises too, and that exception leaves the handler.
\<close>

theorem dead_channel_gets_no_event:
  "accepts websocket = Some 0 \<Longrightarrow>
     \<exists>e. handle_code_execution fuel websocket client_id message uuid svc w
            = Some (Some e, websocket, svc, w)"
  by (simp add: handle_code_execution_def try_body_def send_text_def Let_def)

theorem dead_channel_gets_no_event_witness:
  "accepts (live_websocket\<lparr>accepts := Some 0\<rparr>) = Some 0
   \<and> handle_code_execution 0 (live_websocket\<lparr>accepts := Some 0\<rparr>) ''client-1''
        [(''language'', ''python'')] ''id-1'' (E2BService_init (Some ''key'') None) reliable_e2b
      = Some (Some (RuntimeError ''WebSocket is not connected''),
              live_websocket\<lparr>accepts := Some 0\<rparr>, E2BService_init (Some ''key'') None, reliable_e2b)"
  using dead_channel_gets_no_event [of "live_websocket\<lparr>accepts := Some 0\<rparr>" 0 "''client-1''" "[(''language'', ''python'')]"
      "''id-1''" "E2BService_init (Some ''key'') None" reliable_e2b]
  by (simp add: handle_code_execution_def try_body_def send_text_def Let_def live_websocket_def)

end
